theory Spec2Isabelle
  imports Main "HOL-Library.Word"
begin

section \<open>Data model\<close>

text \<open>
  Go's \<^verbatim>\<open>[]byte\<close> and \<^verbatim>\<open>string\<close> are both sequences of 8-bit bytes; HOL's
  \<^typ>\<open>char\<close> is an 8-bit byte, so both are \<^typ>\<open>string\<close> here, the conversion
  \<^verbatim>\<open>[]byte(s)\<close> is the identity and \<^verbatim>\<open>len\<close> is \<^const>\<open>length\<close>. A nil slice is the
  empty list (the code never compares a slice with nil).
\<close>

type_synonym bytes = string

text \<open>
  Modelled from the spec: the struct \<^verbatim>\<open>models.Header\<close>, which is declared outside
  \<^verbatim>\<open>conn.go\<close>. Its fields are those that \<^verbatim>\<open>conn.go\<close> sets; \<^verbatim>\<open>Code\<close> and \<^verbatim>\<open>Length\<close>
  are \<^verbatim>\<open>uint16\<close> (the code assigns \<^verbatim>\<open>uint16(len(..))\<close> and a \<^verbatim>\<open>uint16\<close> code to
  them); the widths of \<^verbatim>\<open>Magic\<close> and \<^verbatim>\<open>Version\<close> follow the wire frame of the
  specification and play no role below.
\<close>

record Header =
  Magic :: "32 word"
  Version :: "16 word"
  Code :: "16 word"
  Length :: "16 word"

text \<open>\<^verbatim>\<open>protocols.Request\<close> and \<^verbatim>\<open>protocols.Response\<close>, the envelopes of the
  path-addressed convention. The field \<^verbatim>\<open>Code\<close> of the response is \<open>RspCode\<close> here,
  since \<open>Code\<close> names the header's field.\<close>

record Request =
  Path :: string
  Req :: bytes

datatype StatusCode = StatusOK | StatusErr

record Response =
  RspCode :: StatusCode
  Rsp :: bytes
  Err :: string

text \<open>\<^verbatim>\<open>errors.Status\<close>: what its methods \<^verbatim>\<open>Code()\<close> and \<^verbatim>\<open>Error()\<close> return.\<close>

record Status =
  status_Code :: "16 word"
  status_Error :: string

text \<open>Errors of the stream, as \<^verbatim>\<open>bufio.Reader.Peek\<close> reports them. The code compares
  with \<^verbatim>\<open>io.EOF\<close> only; a deadline that fires is another error value.\<close>

datatype io_error = io_EOF | DeadlineExceeded | IOFailure string

fun io_Error :: "io_error \<Rightarrow> string" where
  "io_Error io_EOF = ''EOF''"
| "io_Error DeadlineExceeded = ''i/o timeout''"
| "io_Error (IOFailure m) = m"

text \<open>The values an \<^verbatim>\<open>error\<close> variable of \<^verbatim>\<open>serve\<close> holds: \<^verbatim>\<open>errors.New(msg)\<close>,
  \<^verbatim>\<open>errors.ErrNoKeepAlive\<close>, or an error returned by the socket package.\<close>

datatype error = errors_New string | ErrNoKeepAlive | SocketErr io_error

text \<open>A call either returns a value or panics.\<close>

datatype 'a result = Done 'a | Panic string

text \<open>
  Constants and library functions that \<^verbatim>\<open>conn.go\<close> imports and that are not part of the
  file: they are parameters of the model. \<^verbatim>\<open>proto.Unmarshal\<close> fails with \<open>None\<close>;
  \<^verbatim>\<open>proto.Marshal\<close> fails with \<open>Inl\<close> of its error's text.
\<close>

record Consts =
  DefaultMagic :: "32 word"
  DefaultVersion :: "16 word"
  StatusInvalidRequest :: Status
  StatusInvalidPath :: Status
  CodeInvalidAction :: "16 word"
  HeaderSize :: nat
  Unmarshal :: "bytes \<Rightarrow> Request option"
  Marshal :: "Response \<Rightarrow> string + bytes"

text \<open>
  The \<^verbatim>\<open>Server\<close> as the connection reads it: the two timeouts (a \<^verbatim>\<open>time.Duration\<close>
  is a signed integer), what \<^verbatim>\<open>idleTimeout()\<close> and \<^verbatim>\<open>doKeepAlives()\<close> return, and the
  handler registry behind \<^verbatim>\<open>getHandler\<close> (\<open>None\<close> is the nil handler). The key is a
  path in the first variant of the file and a header code in the second.
\<close>

record ('k, 'h) Server =
  ReadTimeout :: int
  WriteTimeout :: int
  idleTimeout :: int
  doKeepAlives :: bool
  getHandler :: "'k \<Rightarrow> 'h option"

text \<open>The handlers of the two conventions: \<^verbatim>\<open>func(req []byte) ([]byte, error)\<close>, the
  error given by its message, and \<^verbatim>\<open>func(code uint16, body []byte) []byte\<close>. Either
  may panic.\<close>

type_synonym path_handler = "bytes \<Rightarrow> (bytes \<times> string option) result"
type_synonym code_handler = "16 word \<Rightarrow> bytes \<Rightarrow> bytes result"

section \<open>The connection's environment\<close>

text \<open>
  What a connection does to the outside, in order. A deadline \<open>None\<close> is the zero
  \<^verbatim>\<open>time.Time{}\<close> (no deadline), \<open>Some d\<close> is \<^verbatim>\<open>time.Now().Add(d)\<close>. Debug logging
  is left out.
\<close>

datatype action =
    GetBufReader
  | GetBufWriter
  | SetReadDeadline "int option"
  | SetWriteDeadline "int option"
  | PeekCall nat
  | ReadSocketCall
  | ReadHistUpdate
  | WriteSocketCall Header bytes
  | WriteHistUpdate
  | LogErrorf string
  | Println error
  | RwcClose
  | PutBufReader
  | PutBufWriter
  | ConnsHistDec

text \<open>
  The world of one connection: the results that the blocking calls will return, in the
  order of the calls (\<open>'r\<close> for the socket read, \<open>'w\<close> for the socket write), and the
  actions done so far. A call whose list of results is empty never returns: the
  goroutine stays blocked in it.
\<close>

record ('r, 'w) world =
  peeks :: "io_error option list"
  reads :: "'r list"
  writes :: "'w list"
  trace :: "action list"

datatype 'a blocking = Blocks | Returns 'a

definition emit :: "action \<Rightarrow> ('r, 'w) world \<Rightarrow> ('r, 'w) world" where
  "emit a w = w\<lparr>trace := trace w @ [a]\<rparr>"

text \<open>\<^verbatim>\<open>c.bufReader.Peek(n)\<close>: \<open>None\<close> is a nil error.\<close>

definition Peek :: "nat \<Rightarrow> ('r, 'w) world \<Rightarrow> io_error option blocking \<times> ('r, 'w) world" where
  "Peek n w =
     (case peeks w of
        [] \<Rightarrow> (Blocks, emit (PeekCall n) w)
      | p # ps \<Rightarrow> (Returns p, emit (PeekCall n) (w\<lparr>peeks := ps\<rparr>)))"

text \<open>\<^verbatim>\<open>socket.ReadSocket\<close> and \<^verbatim>\<open>socket.ReadSocketTest\<close>: whatever the socket package
  returns.\<close>

definition ReadSocket :: "('r, 'w) world \<Rightarrow> 'r blocking \<times> ('r, 'w) world" where
  "ReadSocket w =
     (case reads w of
        [] \<Rightarrow> (Blocks, emit ReadSocketCall w)
      | r # rs \<Rightarrow> (Returns r, emit ReadSocketCall (w\<lparr>reads := rs\<rparr>)))"

text \<open>\<^verbatim>\<open>socket.WriteSocket(ctx, c.bufWriter, header, body)\<close>.\<close>

definition WriteSocket :: "Header \<Rightarrow> bytes \<Rightarrow> ('r, 'w) world \<Rightarrow> 'w blocking \<times> ('r, 'w) world" where
  "WriteSocket header body w =
     (case writes w of
        [] \<Rightarrow> (Blocks, emit (WriteSocketCall header body) w)
      | r # rs \<Rightarrow> (Returns r, emit (WriteSocketCall header body) (w\<lparr>writes := rs\<rparr>)))"

text \<open>How control leaves the loop of \<^verbatim>\<open>serve\<close>: blocked for ever in a call, by
  \<^verbatim>\<open>return\<close> with the value of \<^verbatim>\<open>closeErr\<close> (the second variant has none), or by a
  panic.\<close>

datatype 'e exit = Blocked | Return 'e | Panicked string

text \<open>What one turn of the loop decides: the next turn (\<^verbatim>\<open>continue\<close>, or the end of
  the body), or leaving the loop.\<close>

datatype 'e step = Continue | Exit "'e exit"

section \<open>The path-addressed connection\<close>

type_synonym path_world = "(Header \<times> bytes \<times> bool \<times> error option, bool \<times> error option) world"

text \<open>The closure \<^verbatim>\<open>wrap\<close> of \<^verbatim>\<open>handleServe\<close>: first the envelope, then its
  serialisation, which panics when \<^verbatim>\<open>proto.Marshal\<close> fails.\<close>

definition wrap_rsp :: "bytes \<Rightarrow> string option \<Rightarrow> Response" where
  "wrap_rsp bs err =
     (case err of
        Some e \<Rightarrow> \<lparr>RspCode = StatusErr, Rsp = [], Err = e\<rparr>
      | None \<Rightarrow> \<lparr>RspCode = StatusOK, Rsp = bs, Err = []\<rparr>)"

definition wrap :: "Consts \<Rightarrow> bytes \<Rightarrow> string option \<Rightarrow> bytes result" where
  "wrap K bs err =
     (case Marshal K (wrap_rsp bs err) of
        Inl e \<Rightarrow> Panic e
      | Inr rspBytes \<Rightarrow> Done rspBytes)"

definition handleServe ::
  "Consts \<Rightarrow> (string, path_handler) Server \<Rightarrow> bytes \<Rightarrow> (bytes \<times> Status option) result" where
  "handleServe K srv body =
     (case Unmarshal K body of
        None \<Rightarrow> Done ([], Some (StatusInvalidRequest K))
      | Some request \<Rightarrow>
          (case getHandler srv (Path request) of
             None \<Rightarrow> Done ([], Some (StatusInvalidPath K))
           | Some handler \<Rightarrow>
               (case handler (Req request) of
                  Panic p \<Rightarrow> Panic p
                | Done (bs, err) \<Rightarrow>
                    (case wrap K bs err of
                       Panic p \<Rightarrow> Panic p
                     | Done rsp \<Rightarrow> Done (rsp, None)))))"

definition responseSuccess ::
  "Header \<Rightarrow> bytes \<Rightarrow> ('r, 'w) world \<Rightarrow> 'w blocking \<times> ('r, 'w) world" where
  "responseSuccess header rspBytes w =
     WriteSocket (header\<lparr>Code := 0, Length := of_nat (length rspBytes)\<rparr>) rspBytes w"

definition responseStatus ::
  "Consts \<Rightarrow> Status \<Rightarrow> ('r, 'w) world \<Rightarrow> 'w blocking \<times> ('r, 'w) world" where
  "responseStatus K status w =
     (let header = \<lparr>Magic = DefaultMagic K, Version = DefaultVersion K,
                    Code = status_Code status, Length = 0\<rparr>;
          body = status_Error status;
          header = header\<lparr>Length := of_nat (length body)\<rparr>
      in WriteSocket header body w)"

definition Close :: "error \<Rightarrow> ('r, 'w) world \<Rightarrow> ('r, 'w) world" where
  "Close err w = emit PutBufWriter (emit PutBufReader (emit RwcClose (emit (Println err) w)))"

text \<open>The closure \<^verbatim>\<open>waitNext\<close> of the first variant: the loop peeks again after
  \<^verbatim>\<open>io.EOF\<close> and returns any other error, wrapped.\<close>

function waitNext ::
  "('k, 'h) Server \<Rightarrow> ('r, 'w) world \<Rightarrow> error option blocking \<times> ('r, 'w) world" where
  "waitNext srv w =
     (let wait = idleTimeout srv;
          w1 = (if wait \<noteq> 0 then emit (SetReadDeadline (Some wait)) w
                else emit (SetReadDeadline None) w)
      in case Peek 1 w1 of
           (Blocks, w2) \<Rightarrow> (Blocks, w2)
         | (Returns (Some err), w2) \<Rightarrow>
             if err = io_EOF then waitNext srv w2
             else (Returns (Some (errors_New (''serve wait peek err : '' @ io_Error err))), w2)
         | (Returns None, w2) \<Rightarrow> (Returns None, emit (SetReadDeadline None) w2))"
  by pat_completeness auto
termination
  by (relation "measure (\<lambda>(srv, w). length (peeks w))")
     (auto simp: Peek_def emit_def split: list.splits if_splits)

text \<open>One turn of the \<^verbatim>\<open>for\<close> loop of \<^verbatim>\<open>serve\<close>: the loop carries no state but
  the connection's world.\<close>

definition serve_iter ::
  "Consts \<Rightarrow> (string, path_handler) Server \<Rightarrow> path_world \<Rightarrow> error step \<times> path_world" where
  "serve_iter K srv w =
     (case waitNext srv w of
        (Blocks, w1) \<Rightarrow> (Exit Blocked, w1)
      | (Returns (Some err), w1) \<Rightarrow> (Exit (Return err), w1)
      | (Returns None, w1) \<Rightarrow>
          (let w2 = (if ReadTimeout srv \<noteq> 0
                     then emit (SetReadDeadline (Some (ReadTimeout srv))) w1 else w1)
           in case ReadSocket w2 of
                (Blocks, w3) \<Rightarrow> (Exit Blocked, w3)
              | (Returns (header, body, broken, err), w3) \<Rightarrow>
                  (let w4 = emit ReadHistUpdate w3
                   in case err of
                        Some e \<Rightarrow>
                          if broken then (Exit (Return e), w4) else (Continue, w4)
                      | None \<Rightarrow>
                          (let w5 = (if WriteTimeout srv \<noteq> 0
                                     then emit (SetWriteDeadline (Some (WriteTimeout srv))) w4
                                     else w4)
                           in case handleServe K srv body of
                                Panic p \<Rightarrow> (Exit (Panicked p), w5)
                              | Done (rspBytes, status) \<Rightarrow>
                                  (case (case status of
                                           Some st \<Rightarrow> responseStatus K st w5
                                         | None \<Rightarrow> responseSuccess header rspBytes w5) of
                                     (Blocks, w6) \<Rightarrow> (Exit Blocked, w6)
                                   | (Returns (wbroken, werr), w6) \<Rightarrow>
                                       (let w7 = emit WriteHistUpdate w6
                                        in case werr of
                                             Some e \<Rightarrow>
                                               if wbroken then (Exit (Return e), w7)
                                               else if \<not> doKeepAlives srv
                                               then (Exit (Return ErrNoKeepAlive), w7)
                                               else (Continue, w7)
                                           | None \<Rightarrow>
                                               if \<not> doKeepAlives srv
                                               then (Exit (Return ErrNoKeepAlive), w7)
                                               else (Continue, w7)))))))"

declare waitNext.simps [simp del]

definition idle_deadline :: "('k, 'h) Server \<Rightarrow> int option" where
  "idle_deadline srv = (if idleTimeout srv \<noteq> 0 then Some (idleTimeout srv) else None)"

lemma waitNext_blocks:
  "peeks w = [] \<Longrightarrow>
   waitNext srv w = (Blocks, emit (PeekCall 1) (emit (SetReadDeadline (idle_deadline srv)) w))"
  by (subst waitNext.simps) (simp add: Peek_def emit_def Let_def idle_deadline_def)

lemma waitNext_EOF:
  "peeks w = Some io_EOF # ps \<Longrightarrow>
   waitNext srv w =
   waitNext srv (emit (PeekCall 1) (emit (SetReadDeadline (idle_deadline srv)) (w\<lparr>peeks := ps\<rparr>)))"
  by (subst waitNext.simps) (simp add: Peek_def emit_def Let_def idle_deadline_def)

lemma waitNext_error:
  "peeks w = Some err # ps \<Longrightarrow> err \<noteq> io_EOF \<Longrightarrow>
   waitNext srv w =
   (Returns (Some (errors_New (''serve wait peek err : '' @ io_Error err))),
    emit (PeekCall 1) (emit (SetReadDeadline (idle_deadline srv)) (w\<lparr>peeks := ps\<rparr>)))"
  by (subst waitNext.simps) (simp add: Peek_def emit_def Let_def idle_deadline_def)

lemma waitNext_data:
  "peeks w = None # ps \<Longrightarrow>
   waitNext srv w =
   (Returns None,
    emit (SetReadDeadline None)
      (emit (PeekCall 1) (emit (SetReadDeadline (idle_deadline srv)) (w\<lparr>peeks := ps\<rparr>))))"
  by (subst waitNext.simps) (simp add: Peek_def emit_def Let_def idle_deadline_def)

lemma waitNext_peeks:
  "waitNext srv w = (Returns r, w') \<Longrightarrow> length (peeks w') < length (peeks w)"
proof (induction "length (peeks w)" arbitrary: w rule: less_induct)
  case less
  show ?case
  proof (cases "peeks w")
    case Nil
    with less.prems show ?thesis
      by (simp add: waitNext_blocks)
  next
    case (Cons p ps)
    show ?thesis
    proof (cases p)
      case None
      with Cons less.prems show ?thesis
        by (auto simp: waitNext_data emit_def)
    next
      case (Some err)
      show ?thesis
      proof (cases "err = io_EOF")
        case True
        let ?w2 = "emit (PeekCall 1) (emit (SetReadDeadline (idle_deadline srv)) (w\<lparr>peeks := ps\<rparr>))"
        have len: "length (peeks ?w2) < length (peeks w)"
          using Cons by (simp add: emit_def)
        have "waitNext srv ?w2 = (Returns r, w')"
          using less.prems Cons Some True by (simp add: waitNext_EOF)
        from less.hyps[OF len this] len show ?thesis
          by simp
      next
        case False
        with Cons Some less.prems show ?thesis
          by (auto simp: waitNext_error emit_def)
      qed
    qed
  qed
qed

lemma peeks_emit [simp]: "peeks (emit a w) = peeks w"
  by (simp add: emit_def)

lemma reads_emit [simp]: "reads (emit a w) = reads w"
  by (simp add: emit_def)

lemma writes_emit [simp]: "writes (emit a w) = writes w"
  by (simp add: emit_def)

lemma trace_emit [simp]: "trace (emit a w) = trace w @ [a]"
  by (simp add: emit_def)

lemma ReadSocket_peeks: "ReadSocket w = (r, w') \<Longrightarrow> peeks w' = peeks w"
  by (auto simp: ReadSocket_def split: list.splits)

lemma WriteSocket_peeks: "WriteSocket h b w = (r, w') \<Longrightarrow> peeks w' = peeks w"
  by (auto simp: WriteSocket_def split: list.splits)

lemma WriteSocket_reads: "WriteSocket h b w = (r, w') \<Longrightarrow> reads w' = reads w"
  by (auto simp: WriteSocket_def split: list.splits)

lemma serve_iter_peeks:
  assumes "serve_iter K srv w = (Continue, w')"
  shows "length (peeks w') < length (peeks w)"
proof -
  obtain r w1 where wn: "waitNext srv w = (r, w1)"
    by (cases "waitNext srv w")
  with assms have r: "r = Returns None"
    by (auto simp: serve_iter_def split: blocking.splits option.splits)
  from wn r have less: "length (peeks w1) < length (peeks w)"
    by (auto dest: waitNext_peeks)
  have "peeks w' = peeks w1"
    using assms wn r
    by (auto simp: serve_iter_def Let_def responseStatus_def responseSuccess_def
             split: blocking.splits option.splits if_splits result.splits prod.splits
             dest!: ReadSocket_peeks WriteSocket_peeks)
  with less show ?thesis
    by simp
qed

text \<open>The \<^verbatim>\<open>for\<close> loop of \<^verbatim>\<open>serve\<close>.\<close>

function serve_loop ::
  "Consts \<Rightarrow> (string, path_handler) Server \<Rightarrow> path_world \<Rightarrow> error exit \<times> path_world" where
  "serve_loop K srv w =
     (case serve_iter K srv w of
        (Continue, w') \<Rightarrow> serve_loop K srv w'
      | (Exit e, w') \<Rightarrow> (e, w'))"
  by pat_completeness auto
termination
  by (relation "measure (\<lambda>(K, srv, w). length (peeks w))")
     (auto dest: serve_iter_peeks [OF sym])

declare serve_loop.simps [simp del]

text \<open>
  The state of the goroutine that runs \<^verbatim>\<open>serve\<close>: still inside a blocking call, returned
  to its caller, or unwinding with a panic that no deferred function recovered.
\<close>

datatype goroutine = Running | Returned | Crashed string

text \<open>
  The deferred functions of \<^verbatim>\<open>serve\<close>, in the order in which they run (the reverse of
  their registration): the function that calls \<^verbatim>\<open>recover()\<close> and logs the panic, the
  function that closes the connection with the current \<^verbatim>\<open>closeErr\<close>, and
  \<^verbatim>\<open>connsHist.Dec(1)\<close>.
\<close>

definition serve_deferred ::
  "string option \<Rightarrow> error \<Rightarrow> ('r, 'w) world \<Rightarrow> goroutine \<times> ('r, 'w) world" where
  "serve_deferred panicking closeErr w =
     (let (panicking', w1) =
            (case panicking of
               Some p \<Rightarrow> (None, emit (LogErrorf p) w)
             | None \<Rightarrow> (None, w));
          w2 = Close closeErr w1;
          w3 = emit ConnsHistDec w2
      in (case panicking' of None \<Rightarrow> Returned | Some p \<Rightarrow> Crashed p, w3))"

definition serve_begin :: "('k, 'h) Server \<Rightarrow> ('r, 'w) world \<Rightarrow> ('r, 'w) world" where
  "serve_begin srv w =
     (let w1 = emit GetBufReader w;
          w2 = emit GetBufWriter w1;
          w3 = (if ReadTimeout srv = 0 then emit (SetReadDeadline None) w2 else w2)
      in if WriteTimeout srv = 0 then emit (SetWriteDeadline None) w3 else w3)"

definition serve ::
  "Consts \<Rightarrow> (string, path_handler) Server \<Rightarrow> path_world \<Rightarrow> goroutine \<times> path_world" where
  "serve K srv w =
     (case serve_loop K srv (serve_begin srv w) of
        (Blocked, w') \<Rightarrow> (Running, w')
      | (Return closeErr, w') \<Rightarrow> serve_deferred None closeErr w'
      | (Panicked p, w') \<Rightarrow> serve_deferred (Some p) (errors_New ''serve default close'') w')"

section \<open>The code-addressed connection\<close>

text \<open>The second variant of the file. Its names are those of the first variant, with
  the suffix \<open>_code\<close> here. Its socket package returns no \<^verbatim>\<open>broken\<close> flag.\<close>

type_synonym code_world = "(Header \<times> bytes \<times> error option, error option) world"

definition handleServe_code ::
  "(16 word, code_handler) Server \<Rightarrow> Header \<Rightarrow> bytes \<Rightarrow> (bytes \<times> bool) result" where
  "handleServe_code srv header body =
     (case getHandler srv (Code header) of
        None \<Rightarrow> Done ([], False)
      | Some handler \<Rightarrow>
          (case handler (Code header) body of
             Panic p \<Rightarrow> Panic p
           | Done rspBytes \<Rightarrow> Done (rspBytes, True)))"

definition responseError ::
  "Consts \<Rightarrow> 16 word \<Rightarrow> string \<Rightarrow> ('r, 'w) world \<Rightarrow> 'w blocking \<times> ('r, 'w) world" where
  "responseError K code msg w =
     (let header = \<lparr>Magic = DefaultMagic K, Version = DefaultVersion K,
                    Code = code, Length = 0\<rparr>;
          body = msg;
          header = header\<lparr>Length := of_nat (length body)\<rparr>
      in WriteSocket header body w)"

definition Close_code :: "('r, 'w) world \<Rightarrow> ('r, 'w) world" where
  "Close_code w = emit PutBufWriter (emit PutBufReader (emit RwcClose w))"

text \<open>The closure \<^verbatim>\<open>waitNext\<close> of the second variant: no loop, and \<^verbatim>\<open>false\<close> when
  the idle timeout is zero.\<close>

definition waitNext_code ::
  "Consts \<Rightarrow> ('k, 'h) Server \<Rightarrow> ('r, 'w) world \<Rightarrow> bool blocking \<times> ('r, 'w) world" where
  "waitNext_code K srv w =
     (let wait = idleTimeout srv
      in if wait \<noteq> 0 then
           (let w1 = emit (SetReadDeadline (Some wait)) w
            in case Peek (HeaderSize K) w1 of
                 (Blocks, w2) \<Rightarrow> (Blocks, w2)
               | (Returns (Some err), w2) \<Rightarrow> (Returns False, w2)
               | (Returns None, w2) \<Rightarrow> (Returns True, emit (SetReadDeadline None) w2))
         else (Returns False, w))"

text \<open>The end of a turn of the second variant's loop, after a response was written.\<close>

definition wait_or_return ::
  "Consts \<Rightarrow> ('k, 'h) Server \<Rightarrow> ('r, 'w) world \<Rightarrow> unit step \<times> ('r, 'w) world" where
  "wait_or_return K srv w =
     (case waitNext_code K srv w of
        (Blocks, w') \<Rightarrow> (Exit Blocked, w')
      | (Returns False, w') \<Rightarrow> (Exit (Return ()), w')
      | (Returns True, w') \<Rightarrow> (Continue, w'))"

definition serve_iter_code ::
  "Consts \<Rightarrow> (16 word, code_handler) Server \<Rightarrow> code_world \<Rightarrow> unit step \<times> code_world" where
  "serve_iter_code K srv w =
     (let w1 = (if ReadTimeout srv \<noteq> 0
                then emit (SetReadDeadline (Some (ReadTimeout srv))) w else w)
      in case ReadSocket w1 of
           (Blocks, w2) \<Rightarrow> (Exit Blocked, w2)
         | (Returns (header, body, err), w2) \<Rightarrow>
             (case err of
                Some e \<Rightarrow> (Exit (Return ()), w2)
              | None \<Rightarrow>
                  (let w3 = (if WriteTimeout srv \<noteq> 0
                             then emit (SetWriteDeadline (Some (WriteTimeout srv))) w2
                             else w2)
                   in case handleServe_code srv header body of
                        Panic p \<Rightarrow> (Exit (Panicked p), w3)
                      | Done (rspBytes, ok) \<Rightarrow>
                          if \<not> ok then
                            (case responseError K (CodeInvalidAction K) ''invalid action'' w3 of
                               (Blocks, w4) \<Rightarrow> (Exit Blocked, w4)
                             | (Returns (Some e), w4) \<Rightarrow> (Exit (Return ()), w4)
                             | (Returns None, w4) \<Rightarrow> wait_or_return K srv w4)
                          else
                            (case WriteSocket
                                    (header\<lparr>Code := 0, Length := of_nat (length rspBytes)\<rparr>)
                                    rspBytes w3 of
                               (Blocks, w4) \<Rightarrow> (Exit Blocked, w4)
                             | (Returns (Some e), w4) \<Rightarrow> (Exit (Return ()), w4)
                             | (Returns None, w4) \<Rightarrow>
                                 if \<not> doKeepAlives srv then (Exit (Return ()), w4)
                                 else wait_or_return K srv w4))))"

lemma Peek_reads: "Peek n w = (r, w') \<Longrightarrow> reads w' = reads w"
  by (auto simp: Peek_def split: list.splits)

lemma waitNext_code_reads: "waitNext_code K srv w = (r, w') \<Longrightarrow> reads w' = reads w"
  by (auto simp: waitNext_code_def Let_def
           split: if_splits prod.splits blocking.splits option.splits dest!: Peek_reads)

lemma wait_or_return_reads: "wait_or_return K srv w = (r, w') \<Longrightarrow> reads w' = reads w"
  by (auto simp: wait_or_return_def
           split: prod.splits blocking.splits bool.splits dest!: waitNext_code_reads)

lemma serve_iter_code_reads:
  assumes "serve_iter_code K srv w = (Continue, w')"
  shows "length (reads w') < length (reads w)"
proof (cases "reads w")
  case Nil
  with assms show ?thesis
    by (auto simp: serve_iter_code_def ReadSocket_def Let_def split: if_splits)
next
  case (Cons r rs)
  have "reads w' = rs"
    using assms Cons
    by (auto simp: serve_iter_code_def ReadSocket_def Let_def responseError_def
             split: prod.splits option.splits result.splits if_splits blocking.splits
             dest!: wait_or_return_reads WriteSocket_reads)
  with Cons show ?thesis
    by simp
qed

function serve_loop_code ::
  "Consts \<Rightarrow> (16 word, code_handler) Server \<Rightarrow> code_world \<Rightarrow> unit exit \<times> code_world" where
  "serve_loop_code K srv w =
     (case serve_iter_code K srv w of
        (Continue, w') \<Rightarrow> serve_loop_code K srv w'
      | (Exit e, w') \<Rightarrow> (e, w'))"
  by pat_completeness auto
termination
  by (relation "measure (\<lambda>(K, srv, w). length (reads w))")
     (auto dest: serve_iter_code_reads [OF sym])

declare serve_loop_code.simps [simp del]

text \<open>The deferred functions of the second variant: the recovering function, then
  \<^verbatim>\<open>c.Close()\<close>.\<close>

definition serve_deferred_code ::
  "string option \<Rightarrow> ('r, 'w) world \<Rightarrow> goroutine \<times> ('r, 'w) world" where
  "serve_deferred_code panicking w =
     (let (panicking', w1) =
            (case panicking of
               Some p \<Rightarrow> (None, emit (LogErrorf p) w)
             | None \<Rightarrow> (None, w));
          w2 = Close_code w1
      in (case panicking' of None \<Rightarrow> Returned | Some p \<Rightarrow> Crashed p, w2))"

definition serve_code ::
  "Consts \<Rightarrow> (16 word, code_handler) Server \<Rightarrow> code_world \<Rightarrow> goroutine \<times> code_world" where
  "serve_code K srv w =
     (case serve_loop_code K srv (serve_begin srv w) of
        (Blocked, w') \<Rightarrow> (Running, w')
      | (Return u, w') \<Rightarrow> serve_deferred_code None w'
      | (Panicked p, w') \<Rightarrow> serve_deferred_code (Some p) w')"

section \<open>Observations on a trace\<close>

text \<open>The frames handed to \<^verbatim>\<open>socket.WriteSocket\<close>, in order.\<close>

fun frames :: "action list \<Rightarrow> (Header \<times> bytes) list" where
  "frames [] = []"
| "frames (WriteSocketCall h b # as) = (h, b) # frames as"
| "frames (a # as) = frames as"

text \<open>An instance of the imported constants and of the two servers, to run the model on.
  The serialisation is a stand-in for protobuf's: a request body is a path that starts
  with a slash, a space, and the request bytes.\<close>

definition demo_Unmarshal :: "bytes \<Rightarrow> Request option" where
  "demo_Unmarshal body =
     (case body of
        [] \<Rightarrow> None
      | c # cs \<Rightarrow>
          if c = CHR ''/''
          then Some \<lparr>Path = takeWhile (\<lambda>x. x \<noteq> CHR '' '') body,
                     Req = drop 1 (dropWhile (\<lambda>x. x \<noteq> CHR '' '') body)\<rparr>
          else None)"

definition demo_Marshal :: "Response \<Rightarrow> string + bytes" where
  "demo_Marshal r =
     Inr ((case RspCode r of StatusOK \<Rightarrow> ''OK:'' | StatusErr \<Rightarrow> ''ERR:'') @ Rsp r @ ''|'' @ Err r)"

definition demo_consts :: Consts where
  "demo_consts =
     \<lparr>DefaultMagic = 1, DefaultVersion = 1,
      StatusInvalidRequest = \<lparr>status_Code = 4, status_Error = ''invalid request''\<rparr>,
      StatusInvalidPath = \<lparr>status_Code = 5, status_Error = ''invalid path''\<rparr>,
      CodeInvalidAction = 6, HeaderSize = 10,
      Unmarshal = demo_Unmarshal, Marshal = demo_Marshal\<rparr>"

definition long_body :: bytes where
  "long_body = replicate 65536 (CHR ''a'')"

definition demo_handlers :: "string \<Rightarrow> path_handler option" where
  "demo_handlers path =
     (if path = ''/echo'' then Some (\<lambda>req. Done (req, None))
      else if path = ''/fail'' then Some (\<lambda>req. Done (''partial'', Some ''boom''))
      else if path = ''/panic'' then Some (\<lambda>req. Panic ''nil dereference'')
      else None)"

definition demo_server :: "bool \<Rightarrow> int \<Rightarrow> (string, path_handler) Server" where
  "demo_server keepAlive idle =
     \<lparr>ReadTimeout = 0, WriteTimeout = 0, idleTimeout = idle, doKeepAlives = keepAlive,
      getHandler = demo_handlers\<rparr>"

definition demo_handlers_code :: "16 word \<Rightarrow> code_handler option" where
  "demo_handlers_code code =
     (if code = 1 then Some (\<lambda>c body. Done body)
      else if code = 2 then Some (\<lambda>c body. Done long_body)
      else if code = 3 then Some (\<lambda>c body. Panic ''nil dereference'')
      else None)"

definition demo_server_code :: "bool \<Rightarrow> int \<Rightarrow> (16 word, code_handler) Server" where
  "demo_server_code keepAlive idle =
     \<lparr>ReadTimeout = 0, WriteTimeout = 0, idleTimeout = idle, doKeepAlives = keepAlive,
      getHandler = demo_handlers_code\<rparr>"

definition demo_header :: "16 word \<Rightarrow> nat \<Rightarrow> Header" where
  "demo_header code n = \<lparr>Magic = 1, Version = 1, Code = code, Length = of_nat n\<rparr>"

definition world0 ::
  "io_error option list \<Rightarrow> 'r list \<Rightarrow> 'w list \<Rightarrow> ('r, 'w) world" where
  "world0 ps rs ws = \<lparr>peeks = ps, reads = rs, writes = ws, trace = []\<rparr>"

text \<open>The actions of \<^verbatim>\<open>Close\<close> on the stream and on the buffer pool.\<close>

fun close_action :: "action \<Rightarrow> bool" where
  "close_action RwcClose = True"
| "close_action PutBufReader = True"
| "close_action PutBufWriter = True"
| "close_action a = False"

text \<open>The world at the head of the loop's \<open>n\<close>-th turn, when the loop gets that far.\<close>

fun loop_head ::
  "Consts \<Rightarrow> (string, path_handler) Server \<Rightarrow> path_world \<Rightarrow> nat \<Rightarrow> path_world option" where
  "loop_head K srv w 0 = Some w"
| "loop_head K srv w (Suc n) =
     (case serve_iter K srv w of
        (Continue, w') \<Rightarrow> loop_head K srv w' n
      | (Exit e, w') \<Rightarrow> None)"

declare loop_head.simps(2) [simp del]



section \<open>Properties\<close>

lemma frames_append [simp]: "frames (xs @ ys) = frames xs @ frames ys"
  by (induction xs rule: frames.induct) auto

lemma unat_uint16_len: "unat (of_nat n :: 16 word) = n mod 2 ^ 16"
  by (simp add: unat_of_nat)

lemma length_long_body: "length long_body = 65536"
  by (simp add: long_body_def)

subsection \<open>The header's length field\<close>

text \<open>
  C10. When a response body is longer than 65535 bytes, \<^verbatim>\<open>responseSuccess\<close> hands the
  whole body to the frame write with a header whose length field is the body length
  modulo \<open>2^16\<close>, which is not the length of the body; \<^verbatim>\<open>responseStatus\<close> does the
  same with a status message that long.
\<close>

theorem header_length_truncated:
  assumes "65535 < length body"
  shows "(\<exists>h. trace (snd (responseSuccess header body w)) = trace w @ [WriteSocketCall h body]
            \<and> unat (Length h) = length body mod 2 ^ 16 \<and> unat (Length h) \<noteq> length body)
       \<and> (\<exists>h. trace (snd (responseStatus K \<lparr>status_Code = c, status_Error = body\<rparr> w))
              = trace w @ [WriteSocketCall h body]
            \<and> unat (Length h) = length body mod 2 ^ 16 \<and> unat (Length h) \<noteq> length body)"
proof -
  have "length body mod 2 ^ 16 < 65536"
    by simp
  with assms have ne: "length body mod 2 ^ 16 \<noteq> length body"
    by linarith
  have tr: "trace (snd (WriteSocket h body w)) = trace w @ [WriteSocketCall h body]" for h
    by (simp add: WriteSocket_def split: list.splits)
  show ?thesis
    using ne by (simp add: responseSuccess_def responseStatus_def Let_def tr unat_uint16_len)
qed

theorem header_length_truncated_witness:
  "65535 < length long_body
   \<and> (\<exists>h. trace (snd (responseSuccess (demo_header 1 2) long_body
                         (world0 [] [] [(False, None)] :: path_world)))
            = trace (world0 [] [] [(False, None)] :: path_world) @ [WriteSocketCall h long_body]
          \<and> unat (Length h) = length long_body mod 2 ^ 16
          \<and> unat (Length h) \<noteq> length long_body)
   \<and> (\<exists>h. trace (snd (responseStatus demo_consts \<lparr>status_Code = 5, status_Error = long_body\<rparr>
                         (world0 [] [] [(False, None)] :: path_world)))
            = trace (world0 [] [] [(False, None)] :: path_world) @ [WriteSocketCall h long_body]
          \<and> unat (Length h) = length long_body mod 2 ^ 16
          \<and> unat (Length h) \<noteq> length long_body)"
proof -
  have h: "65535 < length long_body"
    by (simp add: length_long_body)
  from header_length_truncated [OF h] h show ?thesis
    by blast
qed

subsection \<open>The response envelope\<close>

text \<open>
  C9. The envelope that path-addressed dispatch serialises is a tagged result: for a
  handler that returns a nil error it has the code OK, the handler's bytes as \<open>Rsp\<close> and
  an empty \<open>Err\<close>; for a handler that returns an error it has the code ERR, the error's
  message as \<open>Err\<close> and a nil \<open>Rsp\<close>; so never both fields at once.
\<close>

theorem envelope_tagged_result:
  assumes "Unmarshal K body = Some request"
    and "getHandler srv (Path request) = Some handler"
    and "handler (Req request) = Done (bs, err)"
  shows "handleServe K srv body =
           (case Marshal K (wrap_rsp bs err) of
              Inl e \<Rightarrow> Panic e
            | Inr rspBytes \<Rightarrow> Done (rspBytes, None))
       \<and> (err = None \<longrightarrow>
            RspCode (wrap_rsp bs err) = StatusOK \<and> Rsp (wrap_rsp bs err) = bs
            \<and> Err (wrap_rsp bs err) = [])
       \<and> (\<forall>e. err = Some e \<longrightarrow>
            RspCode (wrap_rsp bs err) = StatusErr \<and> Err (wrap_rsp bs err) = e
            \<and> Rsp (wrap_rsp bs err) = [])
       \<and> (RspCode (wrap_rsp bs err) = StatusOK \<and> Err (wrap_rsp bs err) = []
          \<or> RspCode (wrap_rsp bs err) = StatusErr \<and> Rsp (wrap_rsp bs err) = [])"
proof -
  have "handleServe K srv body =
           (case Marshal K (wrap_rsp bs err) of
              Inl e \<Rightarrow> Panic e
            | Inr rspBytes \<Rightarrow> Done (rspBytes, None))"
    using assms by (simp add: handleServe_def wrap_def split: sum.splits)
  moreover have "err = None \<longrightarrow>
            RspCode (wrap_rsp bs err) = StatusOK \<and> Rsp (wrap_rsp bs err) = bs
            \<and> Err (wrap_rsp bs err) = []"
    by (simp add: wrap_rsp_def)
  moreover have "\<forall>e. err = Some e \<longrightarrow>
            RspCode (wrap_rsp bs err) = StatusErr \<and> Err (wrap_rsp bs err) = e
            \<and> Rsp (wrap_rsp bs err) = []"
    by (simp add: wrap_rsp_def)
  moreover have "RspCode (wrap_rsp bs err) = StatusOK \<and> Err (wrap_rsp bs err) = []
          \<or> RspCode (wrap_rsp bs err) = StatusErr \<and> Rsp (wrap_rsp bs err) = []"
    by (cases err) (simp_all add: wrap_rsp_def)
  ultimately show ?thesis
    by blast
qed

theorem envelope_tagged_result_witness:
  "handleServe demo_consts (demo_server True 0) ''/fail x'' = Done (''ERR:|boom'', None)
   \<and> wrap_rsp ''partial'' (Some ''boom'') = \<lparr>RspCode = StatusErr, Rsp = [], Err = ''boom''\<rparr>"
proof -
  have u: "Unmarshal demo_consts ''/fail x'' = Some \<lparr>Path = ''/fail'', Req = ''x''\<rparr>"
    by (simp add: demo_consts_def demo_Unmarshal_def)
  have g: "getHandler (demo_server True 0) (Path \<lparr>Path = ''/fail'', Req = ''x''\<rparr>)
           = Some (\<lambda>req. Done (''partial'', Some ''boom''))"
    by (simp add: demo_server_def demo_handlers_def)
  have h: "(\<lambda>req. Done (''partial'', Some ''boom'')) (Req \<lparr>Path = ''/fail'', Req = ''x''\<rparr>)
           = (Done (''partial'', Some ''boom'') :: (bytes \<times> string option) result)"
    by simp
  have m: "Marshal demo_consts \<lparr>RspCode = StatusErr, Rsp = [], Err = ''boom''\<rparr> = Inr ''ERR:|boom''"
    by (simp add: demo_consts_def demo_Marshal_def)
  from envelope_tagged_result [OF u g h] m show ?thesis
    by (simp add: wrap_rsp_def)
qed

subsection \<open>What the loop does to the trace\<close>

lemma close_action_neq:
  assumes "close_action a"
  shows "SetReadDeadline d \<noteq> a" "SetWriteDeadline d \<noteq> a" "PeekCall n \<noteq> a"
    "ReadSocketCall \<noteq> a" "ReadHistUpdate \<noteq> a" "WriteSocketCall h b \<noteq> a"
    "WriteHistUpdate \<noteq> a" "GetBufReader \<noteq> a" "GetBufWriter \<noteq> a"
    "LogErrorf p \<noteq> a" "Println e \<noteq> a" "ConnsHistDec \<noteq> a"
  using assms by (cases a; simp)+

lemma waitNext_cases:
  obtains (blocks) "peeks w = []"
      "waitNext srv w = (Blocks, emit (PeekCall 1) (emit (SetReadDeadline (idle_deadline srv)) w))"
  | (eof) ps where "peeks w = Some io_EOF # ps"
      "waitNext srv w =
       waitNext srv (emit (PeekCall 1) (emit (SetReadDeadline (idle_deadline srv)) (w\<lparr>peeks := ps\<rparr>)))"
  | (error) err ps where "peeks w = Some err # ps" "err \<noteq> io_EOF"
      "waitNext srv w =
       (Returns (Some (errors_New (''serve wait peek err : '' @ io_Error err))),
        emit (PeekCall 1) (emit (SetReadDeadline (idle_deadline srv)) (w\<lparr>peeks := ps\<rparr>)))"
  | (data) ps where "peeks w = None # ps"
      "waitNext srv w =
       (Returns None,
        emit (SetReadDeadline None)
          (emit (PeekCall 1) (emit (SetReadDeadline (idle_deadline srv)) (w\<lparr>peeks := ps\<rparr>))))"
proof (cases "peeks w")
  case Nil
  then show ?thesis
    using blocks waitNext_blocks by blast
next
  case (Cons p ps)
  show ?thesis
  proof (cases p)
    case None
    with Cons show ?thesis
      using data waitNext_data by blast
  next
    case (Some err)
    with Cons show ?thesis
      using eof error waitNext_EOF waitNext_error by (cases "err = io_EOF") blast+
  qed
qed

text \<open>What the idle wait leaves alone, and what it adds to the trace.\<close>

lemma waitNext_invariant:
  "waitNext srv w = (r, w') \<Longrightarrow>
   reads w' = reads w \<and> writes w' = writes w
   \<and> (\<exists>tr. trace w' = trace w @ tr
         \<and> set tr \<subseteq> {SetReadDeadline (idle_deadline srv), PeekCall 1, SetReadDeadline None})"
proof (induction "length (peeks w)" arbitrary: w rule: less_induct)
  case less
  show ?case
  proof (cases rule: waitNext_cases [of w srv])
    case blocks
    with less.prems show ?thesis
      by auto
  next
    case (eof ps)
    let ?w2 = "emit (PeekCall 1) (emit (SetReadDeadline (idle_deadline srv)) (w\<lparr>peeks := ps\<rparr>))"
    have len: "length (peeks ?w2) < length (peeks w)"
      using eof(1) by simp
    have "waitNext srv ?w2 = (r, w')"
      using less.prems eof(2) by simp
    from less.hyps [OF len this]
    obtain tr where ih: "reads w' = reads w" "writes w' = writes w"
      "trace w' = trace ?w2 @ tr"
      "set tr \<subseteq> {SetReadDeadline (idle_deadline srv), PeekCall 1, SetReadDeadline None}"
      by auto
    have "trace w' = trace w @ ([SetReadDeadline (idle_deadline srv), PeekCall 1] @ tr)"
      using ih(3) by simp
    moreover have "set ([SetReadDeadline (idle_deadline srv), PeekCall 1] @ tr)
         \<subseteq> {SetReadDeadline (idle_deadline srv), PeekCall 1, SetReadDeadline None}"
      using ih(4) by auto
    ultimately show ?thesis
      using ih(1,2) by blast
  next
    case (error err ps)
    with less.prems show ?thesis
      by auto
  next
    case (data ps)
    with less.prems show ?thesis
      by auto
  qed
qed

lemma frames_wait_actions:
  "set tr \<subseteq> {SetReadDeadline d, PeekCall n, SetReadDeadline d'} \<Longrightarrow> frames tr = []"
  by (induction tr rule: frames.induct) auto

lemma count_wait_actions:
  "close_action a \<Longrightarrow> set tr \<subseteq> {SetReadDeadline d, PeekCall n, SetReadDeadline d'} \<Longrightarrow>
   count_list tr a = 0"
  by (induction tr) (auto simp: close_action_neq)

lemma waitNext_frames:
  "waitNext srv w = (r, w') \<Longrightarrow> frames (trace w') = frames (trace w)"
  by (auto dest!: waitNext_invariant simp: frames_wait_actions)

lemma waitNext_count:
  "close_action a \<Longrightarrow> waitNext srv w = (r, w') \<Longrightarrow>
   count_list (trace w') a = count_list (trace w) a"
  by (auto dest!: waitNext_invariant simp: count_wait_actions)

lemma waitNext_writes: "waitNext srv w = (r, w') \<Longrightarrow> writes w' = writes w"
  by (simp add: waitNext_invariant)

lemma serve_iter_count:
  assumes "close_action a" and "serve_iter K srv w = (s, w')"
  shows "count_list (trace w') a = count_list (trace w) a"
proof -
  obtain r w1 where wn: "waitNext srv w = (r, w1)"
    by (cases "waitNext srv w")
  have c1: "count_list (trace w1) a = count_list (trace w) a"
    using assms(1) wn by (rule waitNext_count)
  show ?thesis
    using assms wn c1
    by (auto simp: serve_iter_def Let_def responseStatus_def responseSuccess_def
          close_action_neq ReadSocket_def WriteSocket_def
        split: blocking.splits option.splits if_splits result.splits prod.splits list.splits)
qed


lemma serve_loop_count:
  "close_action a \<Longrightarrow> serve_loop K srv w = (e, w') \<Longrightarrow>
   count_list (trace w') a = count_list (trace w) a"
proof (induction K srv w rule: serve_loop.induct)
  case (1 K srv w)
  obtain s w1 where it: "serve_iter K srv w = (s, w1)"
    by (cases "serve_iter K srv w")
  have c1: "count_list (trace w1) a = count_list (trace w) a"
    using "1.prems"(1) it by (rule serve_iter_count)
  show ?case
  proof (cases s)
    case Continue
    with it "1.prems"(2) have "serve_loop K srv w1 = (e, w')"
      by (simp add: serve_loop.simps [of K srv w])
    with "1.IH" [OF it [symmetric] _ "1.prems"(1)] Continue c1 show ?thesis
      by simp
  next
    case (Exit x)
    with it "1.prems"(2) c1 show ?thesis
      by (simp add: serve_loop.simps [of K srv w])
  qed
qed

lemma serve_loop_continue:
  "serve_iter K srv w = (Continue, w') \<Longrightarrow> serve_loop K srv w = serve_loop K srv w'"
  by (simp add: serve_loop.simps [of K srv w])

lemma serve_loop_exit:
  "serve_iter K srv w = (Exit e, w') \<Longrightarrow> serve_loop K srv w = (e, w')"
  by (simp add: serve_loop.simps [of K srv w])

lemma serve_loop_head:
  "loop_head K srv w n = Some w' \<Longrightarrow> serve_loop K srv w = serve_loop K srv w'"
proof (induction n arbitrary: w)
  case 0
  then show ?case by simp
next
  case (Suc n)
  then show ?case
    by (auto split: prod.splits step.splits simp: serve_loop_continue loop_head.simps(2))
qed

lemma loop_head_Suc:
  "loop_head K srv w n = Some w' \<Longrightarrow> serve_iter K srv w' = (Continue, w'') \<Longrightarrow>
   loop_head K srv w (Suc n) = Some w''"
proof (induction n arbitrary: w)
  case 0
  then show ?case by (simp add: loop_head.simps(2))
next
  case (Suc n)
  from Suc.prems(1) obtain x where x: "serve_iter K srv w = (Continue, x)"
    and h: "loop_head K srv x n = Some w'"
    by (auto split: prod.splits step.splits simp: loop_head.simps(2))
  have "loop_head K srv x (Suc n) = Some w''"
    using h Suc.prems(2) by (rule Suc.IH)
  moreover have "loop_head K srv w (Suc (Suc n)) = loop_head K srv x (Suc n)"
    using x by (simp add: loop_head.simps(2) [of K srv w "Suc n"])
  ultimately show ?case
    by simp
qed






subsection \<open>Runs of the two demo servers\<close>

lemma demo_server_fields [simp]:
  "ReadTimeout (demo_server ka idle) = 0"
  "WriteTimeout (demo_server ka idle) = 0"
  "idleTimeout (demo_server ka idle) = idle"
  "doKeepAlives (demo_server ka idle) = ka"
  by (simp_all add: demo_server_def)

lemma demo_server_code_fields [simp]:
  "ReadTimeout (demo_server_code ka idle) = 0"
  "WriteTimeout (demo_server_code ka idle) = 0"
  "idleTimeout (demo_server_code ka idle) = idle"
  "doKeepAlives (demo_server_code ka idle) = ka"
  by (simp_all add: demo_server_code_def)


lemma demo_echo: "handleServe demo_consts (demo_server ka idle) ''/echo hi'' = Done (''OK:hi|'', None)"
  by (simp add: handleServe_def demo_consts_def demo_Unmarshal_def demo_server_def
        demo_handlers_def wrap_def wrap_rsp_def demo_Marshal_def)



subsection \<open>The success frame\<close>





subsection \<open>Running the model on explicit worlds\<close>

lemma waitNext_run:
  "waitNext srv \<lparr>peeks = [], reads = rs, writes = ws, trace = tr\<rparr> =
     (Blocks, \<lparr>peeks = [], reads = rs, writes = ws,
               trace = tr @ [SetReadDeadline (idle_deadline srv), PeekCall 1]\<rparr>)"
  "waitNext srv \<lparr>peeks = None # ps, reads = rs, writes = ws, trace = tr\<rparr> =
     (Returns None, \<lparr>peeks = ps, reads = rs, writes = ws,
        trace = tr @ [SetReadDeadline (idle_deadline srv), PeekCall 1, SetReadDeadline None]\<rparr>)"
  "waitNext srv \<lparr>peeks = Some io_EOF # ps, reads = rs, writes = ws, trace = tr\<rparr> =
     waitNext srv \<lparr>peeks = ps, reads = rs, writes = ws,
        trace = tr @ [SetReadDeadline (idle_deadline srv), PeekCall 1]\<rparr>"
  "err \<noteq> io_EOF \<Longrightarrow>
   waitNext srv \<lparr>peeks = Some err # ps, reads = rs, writes = ws, trace = tr\<rparr> =
     (Returns (Some (errors_New (''serve wait peek err : '' @ io_Error err))),
      \<lparr>peeks = ps, reads = rs, writes = ws,
        trace = tr @ [SetReadDeadline (idle_deadline srv), PeekCall 1]\<rparr>)"
  by (simp_all add: waitNext_blocks waitNext_data waitNext_EOF waitNext_error emit_def)

lemma serve_loop_run:
  "serve_loop K srv w =
     (case fst (serve_iter K srv w) of
        Continue \<Rightarrow> serve_loop K srv (snd (serve_iter K srv w))
      | Exit e \<Rightarrow> (e, snd (serve_iter K srv w)))"
  by (subst serve_loop.simps) (simp split: prod.splits step.splits)

lemma serve_loop_code_run:
  "serve_loop_code K srv w =
     (case fst (serve_iter_code K srv w) of
        Continue \<Rightarrow> serve_loop_code K srv (snd (serve_iter_code K srv w))
      | Exit e \<Rightarrow> (e, snd (serve_iter_code K srv w)))"
  by (subst serve_loop_code.simps) (simp split: prod.splits step.splits)

lemmas run_defs =
  serve_def serve_begin_def serve_deferred_def Close_def serve_iter_def ReadSocket_def
  WriteSocket_def responseSuccess_def responseStatus_def emit_def world0_def waitNext_run
  idle_deadline_def serve_code_def serve_deferred_code_def Close_code_def serve_iter_code_def
  responseError_def wait_or_return_def waitNext_code_def Peek_def Let_def demo_header_def
  loop_head.simps(2)

lemma demo_panic: "handleServe demo_consts (demo_server ka idle) ''/panic '' = Panic ''nil dereference''"
  by (simp add: handleServe_def demo_consts_def demo_Unmarshal_def demo_server_def
        demo_handlers_def)

lemma demo_getHandler_panic:
  "getHandler (demo_server ka idle) ''/panic'' = Some (\<lambda>req. Panic ''nil dereference'')"
  by (simp add: demo_server_def demo_handlers_def)

lemma demo_Unmarshal_panic:
  "Unmarshal demo_consts ''/panic '' = Some \<lparr>Path = ''/panic'', Req = []\<rparr>"
  by (simp add: demo_consts_def demo_Unmarshal_def)

subsection \<open>A handler that panics\<close>

text \<open>
  C1, as stated, fails: the path-addressed connection writes nothing after a handler's
  panic. The deferred function recovers and logs it, and the connection is closed; the
  result that the pending write would have returned is never consumed.
\<close>

theorem handler_panic_counterexample:
  "serve demo_consts (demo_server True 0)
     (world0 [None] [(demo_header 0 7, ''/panic '', False, None)] [(False, None)])
   = (Returned,
      \<lparr>peeks = [], reads = [], writes = [(False, None)],
       trace = [GetBufReader, GetBufWriter, SetReadDeadline None, SetWriteDeadline None,
                SetReadDeadline None, PeekCall 1, SetReadDeadline None,
                ReadSocketCall, ReadHistUpdate,
                LogErrorf ''nil dereference'', Println (errors_New ''serve default close''),
                RwcClose, PutBufReader, PutBufWriter, ConnsHistDec]\<rparr>)"
  by (simp add: run_defs serve_loop_run demo_panic)


lemma handleServe_panic:
  "Unmarshal K body = Some request \<Longrightarrow> getHandler srv (Path request) = Some handler \<Longrightarrow>
   handler (Req request) = Panic p \<Longrightarrow> handleServe K srv body = Panic p"
  by (simp add: handleServe_def)

lemma serve_iter_panic:
  assumes "waitNext srv w = (Returns None, w1)"
    and "reads w1 = (header, body, broken, None) # rs"
    and "handleServe K srv body = Panic p"
  shows "\<exists>w5. serve_iter K srv w = (Exit (Panicked p), w5)
           \<and> frames (trace w5) = frames (trace w) \<and> writes w5 = writes w"
proof -
  have "frames (trace w1) = frames (trace w)" "writes w1 = writes w"
    using assms(1) by (simp_all add: waitNext_frames waitNext_writes)
  then show ?thesis
    using assms by (simp add: serve_iter_def ReadSocket_def Let_def)
qed

text \<open>
  C1, amended. In the path-addressed convention, for every request whose handler panics
  during dispatch, the panic is recovered at the connection boundary (\<^verbatim>\<open>serve\<close>
  returns to its caller, so nothing propagates to the listener or to other connections)
  and logged; no response frame is written for the request, and the connection is
  closed with the default close error.
\<close>

theorem handler_panic_closes:
  assumes head: "loop_head K srv (serve_begin srv w0) n = Some w"
    and wn: "waitNext srv w = (Returns None, w1)"
    and rd: "reads w1 = (header, body, broken, None) # rs"
    and un: "Unmarshal K body = Some request"
    and gh: "getHandler srv (Path request) = Some handler"
    and hp: "handler (Req request) = Panic p"
  shows "\<exists>w'. serve K srv w0 = (Returned, w')
           \<and> frames (trace w') = frames (trace w)
           \<and> writes w' = writes w
           \<and> (\<exists>pre. trace w' =
                  pre @ [LogErrorf p, Println (errors_New ''serve default close''),
                         RwcClose, PutBufReader, PutBufWriter, ConnsHistDec])"
proof -
  have "handleServe K srv body = Panic p"
    using un gh hp by (rule handleServe_panic)
  with wn rd obtain w5 where it: "serve_iter K srv w = (Exit (Panicked p), w5)"
    and fr: "frames (trace w5) = frames (trace w)" and wr: "writes w5 = writes w"
    using serve_iter_panic by blast
  have "serve_loop K srv (serve_begin srv w0) = serve_loop K srv w"
    using head by (rule serve_loop_head)
  also have "\<dots> = (Panicked p, w5)"
    using it by (rule serve_loop_exit)
  finally have "serve K srv w0 = serve_deferred (Some p) (errors_New ''serve default close'') w5"
    by (simp add: serve_def)
  then show ?thesis
    using fr wr by (simp add: serve_deferred_def Close_def)
qed

theorem handler_panic_closes_witness:
  "\<exists>w'. serve demo_consts (demo_server True 0)
          (world0 [None, None]
             [(demo_header 0 8, ''/echo hi'', False, None),
              (demo_header 0 7, ''/panic '', False, None)]
             [(False, None), (False, None)])
        = (Returned, w')
      \<and> frames (trace w') = [(\<lparr>Magic = 1, Version = 1, Code = 0, Length = 6\<rparr>, ''OK:hi|'')]
      \<and> writes w' = [(False, None)]
      \<and> (\<exists>pre. trace w' =
              pre @ [LogErrorf ''nil dereference'', Println (errors_New ''serve default close''),
                     RwcClose, PutBufReader, PutBufWriter, ConnsHistDec])"
proof -
  let ?srv = "demo_server True 0"
  let ?init = "world0 [None, None]
             [(demo_header 0 8, ''/echo hi'', False, None),
              (demo_header 0 7, ''/panic '', False, None)]
             [(False, None), (False, None)] :: path_world"
  let ?tr = "[GetBufReader, GetBufWriter, SetReadDeadline None, SetWriteDeadline None,
              SetReadDeadline None, PeekCall 1, SetReadDeadline None, ReadSocketCall,
              ReadHistUpdate,
              WriteSocketCall \<lparr>Magic = 1, Version = 1, Code = 0, Length = 6\<rparr> ''OK:hi|'',
              WriteHistUpdate]"
  let ?head = "\<lparr>peeks = [None], reads = [(demo_header 0 7, ''/panic '', False, None)],
            writes = [(False, None)], trace = ?tr\<rparr> :: path_world"
  let ?ready = "\<lparr>peeks = [], reads = [(demo_header 0 7, ''/panic '', False, None)],
             writes = [(False, None)],
             trace = ?tr @ [SetReadDeadline None, PeekCall 1, SetReadDeadline None]\<rparr> :: path_world"
  have head: "loop_head demo_consts ?srv (serve_begin ?srv ?init) 1 = Some ?head"
    by (simp add: run_defs demo_echo)
  have wn: "waitNext ?srv ?head = (Returns None, ?ready)"
    by (simp add: run_defs)
  have rd: "reads ?ready = (demo_header 0 7, ''/panic '', False, None) # []"
    by simp
  have hp: "(\<lambda>req. Panic ''nil dereference'') (Req \<lparr>Path = ''/panic'', Req = []\<rparr>)
            = (Panic ''nil dereference'' :: (bytes \<times> string option) result)"
    by simp
  have gh: "getHandler ?srv (Path \<lparr>Path = ''/panic'', Req = []\<rparr>)
            = Some (\<lambda>req. Panic ''nil dereference'')"
    by (simp add: demo_getHandler_panic)
  from handler_panic_closes [OF head wn rd demo_Unmarshal_panic gh hp]
  show ?thesis
    by simp
qed

subsection \<open>A request that cannot be dispatched\<close>

lemma demo_missing:
  "handleServe demo_consts (demo_server ka idle) ''/missing x''
   = Done ([], Some \<lparr>status_Code = 5, status_Error = ''invalid path''\<rparr>)"
  by (simp add: handleServe_def demo_consts_def demo_Unmarshal_def demo_server_def
        demo_handlers_def)

lemma demo_consts_fields [simp]:
  "DefaultMagic demo_consts = 1" "DefaultVersion demo_consts = 1"
  "CodeInvalidAction demo_consts = 6" "HeaderSize demo_consts = 10"
  "StatusInvalidPath demo_consts = \<lparr>status_Code = 5, status_Error = ''invalid path''\<rparr>"
  "StatusInvalidRequest demo_consts = \<lparr>status_Code = 4, status_Error = ''invalid request''\<rparr>"
  by (simp_all add: demo_consts_def)

lemma demo_Marshal_invalid_path:
  "Marshal demo_consts \<lparr>RspCode = StatusErr, Rsp = [], Err = ''invalid path''\<rparr>
   = Inr ''ERR:|invalid path''"
  by (simp add: demo_consts_def demo_Marshal_def)

lemma demo_Unmarshal_missing:
  "Unmarshal demo_consts ''/missing x'' = Some \<lparr>Path = ''/missing'', Req = ''x''\<rparr>"
  by (simp add: demo_consts_def demo_Unmarshal_def)

text \<open>
  C2, as stated, fails. For a path without a handler the server writes the status
  message itself as the body, under a header that carries the status code: no response
  envelope is serialised (with this instance's serialisation the envelope would be the
  bytes on the second line). And with keep-alive disabled the connection is closed
  after that response, while the peer's next request is still unread.
\<close>

theorem invalid_request_counterexample:
  "serve demo_consts (demo_server False 0)
     (world0 [None, None]
        [(demo_header 0 10, ''/missing x'', False, None),
         (demo_header 0 8, ''/echo hi'', False, None)]
        [(False, None), (False, None)])
   = (Returned,
      \<lparr>peeks = [None],
       reads = [(\<lparr>Magic = 1, Version = 1, Code = 0, Length = 8\<rparr>, ''/echo hi'', False, None)],
       writes = [(False, None)],
       trace = [GetBufReader, GetBufWriter, SetReadDeadline None, SetWriteDeadline None,
                SetReadDeadline None, PeekCall 1, SetReadDeadline None,
                ReadSocketCall, ReadHistUpdate,
                WriteSocketCall \<lparr>Magic = 1, Version = 1, Code = 5, Length = 12\<rparr> ''invalid path'',
                WriteHistUpdate,
                Println ErrNoKeepAlive, RwcClose, PutBufReader, PutBufWriter, ConnsHistDec]\<rparr>)
   \<and> Marshal demo_consts \<lparr>RspCode = StatusErr, Rsp = [], Err = ''invalid path''\<rparr>
       = Inr ''ERR:|invalid path''"
  by (simp add: run_defs serve_loop_run demo_missing demo_Marshal_invalid_path)


lemma handleServe_invalid:
  "Unmarshal K body = None \<or>
   (\<exists>request. Unmarshal K body = Some request \<and> getHandler srv (Path request) = None) \<Longrightarrow>
   handleServe K srv body =
     Done ([], Some (if Unmarshal K body = None then StatusInvalidRequest K
                     else StatusInvalidPath K))"
  by (auto simp: handleServe_def)

text \<open>The turn of the loop from a successful read on, for a dispatch that returns.\<close>

lemma serve_iter_status:
  assumes "waitNext srv w = (Returns None, w1)"
    and "reads w1 = (header, body, broken, None) # rs"
    and "writes w1 = (wbroken, werr) # ws"
    and "handleServe K srv body = Done (rspBytes, Some st)"
  shows "\<exists>w'. serve_iter K srv w =
            (case werr of
               Some e \<Rightarrow>
                 if wbroken then Exit (Return e)
                 else if doKeepAlives srv then Continue else Exit (Return ErrNoKeepAlive)
             | None \<Rightarrow> if doKeepAlives srv then Continue else Exit (Return ErrNoKeepAlive),
             w')
          \<and> frames (trace w') =
              frames (trace w) @
              [(\<lparr>Magic = DefaultMagic K, Version = DefaultVersion K, Code = status_Code st,
                 Length = of_nat (length (status_Error st))\<rparr>, status_Error st)]
          \<and> reads w' = rs \<and> writes w' = ws"
proof -
  have "frames (trace w1) = frames (trace w)"
    using assms(1) by (rule waitNext_frames)
  then show ?thesis
    using assms
    by (simp add: serve_iter_def ReadSocket_def responseStatus_def WriteSocket_def Let_def
          split: option.splits)
qed


lemma serve_at_head_exit:
  "loop_head K srv (serve_begin srv w0) n = Some w \<Longrightarrow>
   serve_iter K srv w = (Exit (Return e), w') \<Longrightarrow>
   serve K srv w0 = serve_deferred None e w'"
proof -
  assume head: "loop_head K srv (serve_begin srv w0) n = Some w"
    and it: "serve_iter K srv w = (Exit (Return e), w')"
  have "serve_loop K srv (serve_begin srv w0) = serve_loop K srv w"
    using head by (rule serve_loop_head)
  also have "\<dots> = (Return e, w')"
    using it by (rule serve_loop_exit)
  finally show ?thesis
    by (simp add: serve_def)
qed

text \<open>
  C2, amended. In the path-addressed convention, for every request whose body fails to
  unmarshal or whose path has no registered handler, the server writes one frame whose
  header carries the default magic and version, the code of the \<open>InvalidRequest\<close> or
  \<open>InvalidPath\<close> status and the length of the status message, and whose body is the
  status message. Unless that write fails as broken, the loop then reaches its next
  turn exactly when keep-alive is enabled; otherwise the connection is closed (with
  \<^verbatim>\<open>ErrNoKeepAlive\<close>, or with the broken write's error).
\<close>

theorem invalid_request_status_frame:
  assumes head: "loop_head K srv (serve_begin srv w0) n = Some w"
    and wn: "waitNext srv w = (Returns None, w1)"
    and rd: "reads w1 = (header, body, broken, None) # rs"
    and wr: "writes w1 = (wbroken, werr) # ws"
    and bad: "Unmarshal K body = None \<or>
       (\<exists>request. Unmarshal K body = Some request \<and> getHandler srv (Path request) = None)"
  shows "\<exists>st w'.
           st = (if Unmarshal K body = None then StatusInvalidRequest K else StatusInvalidPath K)
         \<and> frames (trace w') =
             frames (trace w) @
             [(\<lparr>Magic = DefaultMagic K, Version = DefaultVersion K, Code = status_Code st,
                Length = of_nat (length (status_Error st))\<rparr>, status_Error st)]
         \<and> reads w' = rs \<and> writes w' = ws
         \<and> (let after = (if doKeepAlives srv
                           then loop_head K srv (serve_begin srv w0) (Suc n) = Some w'
                           else serve K srv w0 = serve_deferred None ErrNoKeepAlive w')
            in case werr of
                 Some e \<Rightarrow>
                   if wbroken then serve K srv w0 = serve_deferred None e w' else after
               | None \<Rightarrow> after)"
proof -
  let ?st = "if Unmarshal K body = None then StatusInvalidRequest K else StatusInvalidPath K"
  have hs: "handleServe K srv body = Done ([], Some ?st)"
    using bad by (rule handleServe_invalid)
  from serve_iter_status [OF wn rd wr hs] obtain w' where
    it: "serve_iter K srv w =
            (case werr of
               Some e \<Rightarrow>
                 if wbroken then Exit (Return e)
                 else if doKeepAlives srv then Continue else Exit (Return ErrNoKeepAlive)
             | None \<Rightarrow> if doKeepAlives srv then Continue else Exit (Return ErrNoKeepAlive),
             w')"
    and fr: "frames (trace w') =
              frames (trace w) @
              [(\<lparr>Magic = DefaultMagic K, Version = DefaultVersion K, Code = status_Code ?st,
                 Length = of_nat (length (status_Error ?st))\<rparr>, status_Error ?st)]"
    and rw: "reads w' = rs" "writes w' = ws"
    by blast
  have "let after = (if doKeepAlives srv
                           then loop_head K srv (serve_begin srv w0) (Suc n) = Some w'
                           else serve K srv w0 = serve_deferred None ErrNoKeepAlive w')
            in case werr of
                 Some e \<Rightarrow>
                   if wbroken then serve K srv w0 = serve_deferred None e w' else after
               | None \<Rightarrow> after"
    using it head
    by (auto simp: Let_def split: option.splits intro: loop_head_Suc serve_at_head_exit)
  with fr rw show ?thesis
    by blast
qed


theorem invalid_request_status_frame_witness:
  "\<exists>st w'.
      st = \<lparr>status_Code = 5, status_Error = ''invalid path''\<rparr>
    \<and> frames (trace w') =
          [(\<lparr>Magic = 1, Version = 1, Code = 5, Length = 12\<rparr>, ''invalid path'')]
    \<and> reads w' = [(demo_header 0 8, ''/echo hi'', False, None)]
    \<and> writes w' = [(False, None)]
    \<and> loop_head demo_consts (demo_server True 0)
          (serve_begin (demo_server True 0)
             (world0 [None, None]
                [(demo_header 0 10, ''/missing x'', False, None),
                 (demo_header 0 8, ''/echo hi'', False, None)]
                [(False, None), (False, None)])) (Suc 0)
        = Some w'"
proof -
  let ?srv = "demo_server True 0"
  let ?init = "world0 [None, None]
                [(demo_header 0 10, ''/missing x'', False, None),
                 (demo_header 0 8, ''/echo hi'', False, None)]
                [(False, None), (False, None)] :: path_world"
  let ?ready = "\<lparr>peeks = [None],
                reads = [(demo_header 0 10, ''/missing x'', False, None),
                         (demo_header 0 8, ''/echo hi'', False, None)],
                writes = [(False, None), (False, None)],
                trace = [GetBufReader, GetBufWriter, SetReadDeadline None, SetWriteDeadline None,
                         SetReadDeadline None, PeekCall 1, SetReadDeadline None]\<rparr> :: path_world"
  have head: "loop_head demo_consts ?srv (serve_begin ?srv ?init) 0 = Some (serve_begin ?srv ?init)"
    by simp
  have wn: "waitNext ?srv (serve_begin ?srv ?init) = (Returns None, ?ready)"
    by (simp add: run_defs)
  have rd: "reads ?ready = (demo_header 0 10, ''/missing x'', False, None)
                            # [(demo_header 0 8, ''/echo hi'', False, None)]"
    by simp
  have wr: "writes ?ready = (False, None) # [(False, None)]"
    by simp
  have bad: "Unmarshal demo_consts ''/missing x'' = None \<or>
       (\<exists>request. Unmarshal demo_consts ''/missing x'' = Some request
           \<and> getHandler ?srv (Path request) = None)"
    by (rule disjI2, rule exI [of _ "\<lparr>Path = ''/missing'', Req = ''x''\<rparr>"])
       (simp add: demo_Unmarshal_missing demo_server_def demo_handlers_def)
  have tr: "frames (trace (serve_begin ?srv ?init)) = []"
    by (simp add: run_defs)
  from invalid_request_status_frame [OF head wn rd wr bad]
  show ?thesis
    by (simp add: tr demo_Unmarshal_missing)
qed

subsection \<open>The keep-alive decision\<close>
















subsection \<open>The idle wait\<close>

lemma serve_begin_fields [simp]:
  "peeks (serve_begin srv w) = peeks w"
  "reads (serve_begin srv w) = reads w"
  "writes (serve_begin srv w) = writes w"
  by (simp_all add: serve_begin_def Let_def)

lemma demo_handleServe_code:
  "handleServe_code (demo_server_code ka idle) h body =
     (if Code h = 1 then Done (body, True)
      else if Code h = 2 then Done (long_body, True)
      else if Code h = 3 then Panic ''nil dereference''
      else Done ([], False))"
  by (simp add: handleServe_code_def demo_server_code_def demo_handlers_code_def)

text \<open>
  C5, as stated, fails: a deadline that fires during the peek is an error other than
  \<^verbatim>\<open>io.EOF\<close>, so \<^verbatim>\<open>waitNext\<close> returns it and the connection is closed, although data
  would have arrived next.
\<close>

theorem peek_timeout_counterexample:
  "serve demo_consts (demo_server True 5)
     (world0 [Some DeadlineExceeded, None]
        [(demo_header 0 8, ''/echo hi'', False, None)] [(False, None)])
   = (Returned,
      \<lparr>peeks = [None],
       reads = [(\<lparr>Magic = 1, Version = 1, Code = 0, Length = 8\<rparr>, ''/echo hi'', False, None)],
       writes = [(False, None)],
       trace = [GetBufReader, GetBufWriter, SetReadDeadline None, SetWriteDeadline None,
                SetReadDeadline (Some 5), PeekCall 1,
                Println (errors_New ''serve wait peek err : i/o timeout''),
                RwcClose, PutBufReader, PutBufWriter, ConnsHistDec]\<rparr>)"
  by (simp add: run_defs serve_loop_run)

lemma serve_iter_peek_error:
  "peeks w = Some err # ps \<Longrightarrow> err \<noteq> io_EOF \<Longrightarrow>
   serve_iter K srv w =
     (Exit (Return (errors_New (''serve wait peek err : '' @ io_Error err))),
      emit (PeekCall 1) (emit (SetReadDeadline (idle_deadline srv)) (w\<lparr>peeks := ps\<rparr>)))"
  by (simp add: serve_iter_def waitNext_error)

text \<open>
  C5, amended. In the idle wait of the path-addressed convention, only \<^verbatim>\<open>io.EOF\<close> from
  the peek is not an error: the loop sets the deadline again and peeks again. Any
  other error of the peek, a fired read deadline included, ends \<^verbatim>\<open>serve\<close>: the
  connection is closed with the error \<open>serve wait peek err : ...\<close>.
\<close>

theorem peek_error_closes:
  assumes head: "loop_head K srv (serve_begin srv w0) n = Some w"
    and pk: "peeks w = Some err # ps"
  shows "if err = io_EOF
         then waitNext srv w =
              waitNext srv
                (emit (PeekCall 1) (emit (SetReadDeadline (idle_deadline srv)) (w\<lparr>peeks := ps\<rparr>)))
         else serve K srv w0 =
              (Returned,
               emit ConnsHistDec
                 (Close (errors_New (''serve wait peek err : '' @ io_Error err))
                    (emit (PeekCall 1)
                       (emit (SetReadDeadline (idle_deadline srv)) (w\<lparr>peeks := ps\<rparr>)))))"
proof (cases "err = io_EOF")
  case True
  with pk show ?thesis
    by (simp add: waitNext_EOF)
next
  case False
  have "serve K srv w0 =
        serve_deferred None (errors_New (''serve wait peek err : '' @ io_Error err))
          (emit (PeekCall 1) (emit (SetReadDeadline (idle_deadline srv)) (w\<lparr>peeks := ps\<rparr>)))"
    using head serve_iter_peek_error [OF pk False] by (rule serve_at_head_exit)
  with False show ?thesis
    by (simp add: serve_deferred_def)
qed

theorem peek_error_closes_witness:
  "serve demo_consts (demo_server True 5)
     (world0 [Some DeadlineExceeded, None]
        [(demo_header 0 8, ''/echo hi'', False, None)] [(False, None)])
   = (Returned,
      emit ConnsHistDec
        (Close (errors_New (''serve wait peek err : '' @ io_Error DeadlineExceeded))
           (emit (PeekCall 1)
              (emit (SetReadDeadline (idle_deadline (demo_server True 5)))
                 ((serve_begin (demo_server True 5)
                     (world0 [Some DeadlineExceeded, None]
                        [(demo_header 0 8, ''/echo hi'', False, None)] [(False, None)]))
                  \<lparr>peeks := [None]\<rparr>)))))"
proof -
  let ?srv = "demo_server True 5"
  let ?init = "world0 [Some DeadlineExceeded, None]
        [(demo_header 0 8, ''/echo hi'', False, None)] [(False, None)] :: path_world"
  have head: "loop_head demo_consts ?srv (serve_begin ?srv ?init) 0 = Some (serve_begin ?srv ?init)"
    by simp
  have pk: "peeks (serve_begin ?srv ?init) = Some DeadlineExceeded # [None]"
    by (simp add: serve_begin_def world0_def)
  from peek_error_closes [OF head pk] show ?thesis
    by simp
qed








subsection \<open>A header code without a handler\<close>









subsection \<open>Closing the connection\<close>

text \<open>
  C4, as stated, fails: \<^verbatim>\<open>Close\<close> keeps no record of having run. Called again after
  \<^verbatim>\<open>serve\<close> has closed the connection, it closes the stream and puts the reader and the
  writer into the pool a second time; so does the second variant's \<^verbatim>\<open>Close\<close>.
\<close>

theorem close_twice_counterexample:
  "trace (Close ErrNoKeepAlive
            (snd (serve demo_consts (demo_server False 0)
                    (world0 [None] [(demo_header 0 8, ''/echo hi'', False, None)] [(False, None)]))))
   = [GetBufReader, GetBufWriter, SetReadDeadline None, SetWriteDeadline None,
      SetReadDeadline None, PeekCall 1, SetReadDeadline None, ReadSocketCall, ReadHistUpdate,
      WriteSocketCall \<lparr>Magic = 1, Version = 1, Code = 0, Length = 6\<rparr> ''OK:hi|'',
      WriteHistUpdate,
      Println ErrNoKeepAlive, RwcClose, PutBufReader, PutBufWriter, ConnsHistDec,
      Println ErrNoKeepAlive, RwcClose, PutBufReader, PutBufWriter]
   \<and> trace (Close_code (Close_code (world0 [] [] [] :: code_world)))
     = [RwcClose, PutBufReader, PutBufWriter, RwcClose, PutBufReader, PutBufWriter]"
  by (simp add: run_defs serve_loop_run demo_echo)

lemma waitNext_code_count:
  "close_action a \<Longrightarrow> waitNext_code K srv w = (r, w') \<Longrightarrow>
   count_list (trace w') a = count_list (trace w) a"
  by (auto simp: waitNext_code_def Peek_def Let_def close_action_neq
        split: if_splits list.splits option.splits)

lemma wait_or_return_count:
  "close_action a \<Longrightarrow> wait_or_return K srv w = (s, w') \<Longrightarrow>
   count_list (trace w') a = count_list (trace w) a"
  by (auto simp: wait_or_return_def split: prod.splits blocking.splits bool.splits
        dest: waitNext_code_count)

lemma serve_iter_code_count:
  assumes "close_action a" and "serve_iter_code K srv w = (s, w')"
  shows "count_list (trace w') a = count_list (trace w) a"
proof -
  have wr: "count_list (trace v') a = count_list (trace v) a"
    if "wait_or_return K srv v = (s, v')" for v v' :: code_world and s
    using assms(1) that by (rule wait_or_return_count)
  show ?thesis
    using assms
    by (auto simp: serve_iter_code_def Let_def responseError_def close_action_neq
          ReadSocket_def WriteSocket_def
        split: option.splits if_splits result.splits prod.splits list.splits
        dest!: wr)
qed

lemma serve_loop_code_count:
  "close_action a \<Longrightarrow> serve_loop_code K srv w = (e, w') \<Longrightarrow>
   count_list (trace w') a = count_list (trace w) a"
proof (induction K srv w rule: serve_loop_code.induct)
  case (1 K srv w)
  obtain s w1 where it: "serve_iter_code K srv w = (s, w1)"
    by (cases "serve_iter_code K srv w")
  have c1: "count_list (trace w1) a = count_list (trace w) a"
    using "1.prems"(1) it by (rule serve_iter_code_count)
  show ?case
  proof (cases s)
    case Continue
    with it "1.prems"(2) have "serve_loop_code K srv w1 = (e, w')"
      by (simp add: serve_loop_code.simps [of K srv w])
    with "1.IH" [OF it [symmetric] _ "1.prems"(1)] Continue c1 show ?thesis
      by simp
  next
    case (Exit x)
    with it "1.prems"(2) c1 show ?thesis
      by (simp add: serve_loop_code.simps [of K srv w])
  qed
qed

lemma serve_begin_count:
  "close_action a \<Longrightarrow> count_list (trace (serve_begin srv w)) a = count_list (trace w) a"
  by (simp add: serve_begin_def Let_def close_action_neq)

lemma Close_count:
  "close_action a \<Longrightarrow> count_list (trace (Close e w)) a = Suc (count_list (trace w) a)"
  by (cases a) (simp_all add: Close_def)

lemma Close_code_count:
  "close_action a \<Longrightarrow> count_list (trace (Close_code w)) a = Suc (count_list (trace w) a)"
  by (cases a) (simp_all add: Close_code_def)

text \<open>
  C4, amended. Every call of \<^verbatim>\<open>Close\<close> closes the stream and releases the buffered reader
  and the buffered writer to the pool once more. The loop of \<^verbatim>\<open>serve\<close> never does either,
  and \<^verbatim>\<open>serve\<close> calls \<^verbatim>\<open>Close\<close> exactly once, when it returns: a connection served by
  \<^verbatim>\<open>serve\<close> closes its stream once and releases each buffer once, in both conventions.
\<close>

theorem close_once_per_serve:
  assumes "close_action a"
  shows "count_list (trace (Close e w)) a = Suc (count_list (trace w) a)
       \<and> count_list (trace (Close_code cw)) a = Suc (count_list (trace cw) a)
       \<and> count_list (trace (snd (serve K srv w0))) a
           = count_list (trace w0) a + (if fst (serve K srv w0) = Running then 0 else 1)
       \<and> count_list (trace (snd (serve_code K csrv cw0))) a
           = count_list (trace cw0) a + (if fst (serve_code K csrv cw0) = Running then 0 else 1)"
proof -
  obtain x w' where lp: "serve_loop K srv (serve_begin srv w0) = (x, w')"
    by (cases "serve_loop K srv (serve_begin srv w0)")
  have c: "count_list (trace w') a = count_list (trace w0) a"
    using serve_loop_count [OF assms lp] by (simp add: serve_begin_count [OF assms])
  have s: "count_list (trace (snd (serve K srv w0))) a
           = count_list (trace w0) a + (if fst (serve K srv w0) = Running then 0 else 1)"
    using lp c assms
    by (cases x) (simp_all add: serve_def serve_deferred_def Close_count close_action_neq)
  obtain y cw' where clp: "serve_loop_code K csrv (serve_begin csrv cw0) = (y, cw')"
    by (cases "serve_loop_code K csrv (serve_begin csrv cw0)")
  have cc: "count_list (trace cw') a = count_list (trace cw0) a"
    using serve_loop_code_count [OF assms clp] by (simp add: serve_begin_count [OF assms])
  have sc: "count_list (trace (snd (serve_code K csrv cw0))) a
           = count_list (trace cw0) a + (if fst (serve_code K csrv cw0) = Running then 0 else 1)"
    using clp cc assms
    by (cases y) (simp_all add: serve_code_def serve_deferred_code_def Close_code_count close_action_neq)
  from s sc Close_count [OF assms] Close_code_count [OF assms] show ?thesis
    by blast
qed


theorem close_once_per_serve_witness:
  "count_list (trace (Close ErrNoKeepAlive (world0 [] [] [] :: path_world))) PutBufReader = 1
   \<and> count_list (trace (Close_code (world0 [] [] [] :: code_world))) PutBufReader = 1
   \<and> count_list
        (trace (snd (serve demo_consts (demo_server False 0)
           (world0 [None] [(demo_header 0 8, ''/echo hi'', False, None)] [(False, None)]))))
        PutBufReader = 1
   \<and> count_list
        (trace (snd (serve_code demo_consts (demo_server_code False 5)
           (world0 [None] [(demo_header 1 2, ''hi'', None)] [None]))))
        PutBufReader = 1"
proof -
  have a: "close_action PutBufReader"
    by simp
  have r: "fst (serve demo_consts (demo_server False 0)
           (world0 [None] [(demo_header 0 8, ''/echo hi'', False, None)] [(False, None)]))
           = Returned"
    by (simp add: run_defs serve_loop_run demo_echo)
  have cr: "fst (serve_code demo_consts (demo_server_code False 5)
           (world0 [None] [(demo_header 1 2, ''hi'', None)] [None]))
           = Returned"
    by (simp add: run_defs serve_loop_code_run demo_handleServe_code)
  have t: "trace (world0 ps rs ws) = []" for ps and rs :: "'r list" and ws :: "'w list"
    by (simp add: world0_def)
  from close_once_per_serve [OF a, of ErrNoKeepAlive "world0 [] [] []" "world0 [] [] []"
      demo_consts "demo_server False 0"
      "world0 [None] [(demo_header 0 8, ''/echo hi'', False, None)] [(False, None)]"
      "demo_server_code False 5" "world0 [None] [(demo_header 1 2, ''hi'', None)] [None]"]
  show ?thesis
    by (simp add: r cr t)
qed

end
